theory Spec2Isabelle
  imports Main "HOL-Library.Word"
begin

unbundle bit_operations_syntax

section \<open>The IFF picture loader of WIN32LIB/IFF/LOADPICT.CPP\<close>

text \<open>
  Buffers are lists of bytes. A pointer that walks a buffer is the list of the bytes
  from the pointer to the end of the buffer; a pointer that writes is the list of the
  bytes written so far. Reading past the end of a buffer is undefined in C and is an
  error value here. Plain \<open>char\<close> is taken as signed (for the plane counts 0 to 127 the
  signed and the unsigned reading agree); \<open>int\<close> is 32 bits wide.
\<close>

type_synonym byte = "8 word"

datatype error =
    FileOpenError
  | NotAPicture
  | MissingHeader
  | UnsupportedMasking
  | UnsupportedCompression
  | SourceOverrun
  | DestOverrun
  | IntOverflow
  | PlaneOverflow

subsection \<open>The BMHD chunk\<close>

record BitMapHeader_Type =
  W :: "16 word"
  H :: "16 word"
  X :: "16 word"
  Y :: "16 word"
  BPlanes :: byte
  Masking :: byte
  Compression :: byte
  pad :: byte
  Transparent :: "16 word"
  XAspect :: byte
  YAspect :: byte
  PageWidth :: "16 word"
  PageHeight :: "16 word"

subsection \<open>Transfer of the BODY chunk, one row at a time\<close>

text \<open>\<open>bmhd.W >> 3\<close>: the unsigned short is promoted to int and shifted.\<close>

definition plane_bytes :: "BitMapHeader_Type \<Rightarrow> int" where
  "plane_bytes bmhd = uint (W bmhd) div 8"

text \<open>\<open>(short)bmhd.W >> 3\<close>: the width is first read as a signed short; the shift of a
  negative value is arithmetic, which is the rounded-down division.\<close>

definition mask_limit :: "BitMapHeader_Type \<Rightarrow> int" where
  "mask_limit bmhd = sint (W bmhd) div 8"

text \<open>Lines 465-469: the bytes of one row, all bitplanes, one more with a mask.\<close>

definition row_counter :: "BitMapHeader_Type \<Rightarrow> int" where
  "row_counter bmhd =
     (let counter = sint (BPlanes bmhd) * plane_bytes bmhd
      in if Masking bmhd = 1 then counter + plane_bytes bmhd else counter)"

text \<open>Lines 486-487 and 503: the test that guards the write of a run.\<close>

definition writes_run :: "BitMapHeader_Type \<Rightarrow> int \<Rightarrow> bool" where
  "writes_run bmhd counter \<longleftrightarrow>
     Masking bmhd \<noteq> 1 \<or> (Masking bmhd = 1 \<and> counter > mask_limit bmhd)"

text \<open>
  Lines 477-509: one pass through the body of the \<open>while (counter)\<close> loop. The state is
  the source pointer, the bytes written and the counter.
\<close>

definition byterun_step ::
  "BitMapHeader_Type \<Rightarrow> byte list \<times> byte list \<times> int \<Rightarrow> error + (byte list \<times> byte list \<times> int)" where
  "byterun_step bmhd s =
     (case s of (src, dest, counter) \<Rightarrow>
       (case src of
          [] \<Rightarrow> Inl SourceOverrun
        | c # rest \<Rightarrow>
            let val = sint c in
            if val = - 128 then Inr (rest, dest, counter)
            else if val \<ge> 0 then
              let len = val + 1 in
              if int (length rest) < len then Inl SourceOverrun
              else if counter - len < - (2 ^ 31) then Inl IntOverflow
              else Inr (drop (nat len) rest,
                        if writes_run bmhd counter then dest @ take (nat len) rest else dest,
                        counter - len)
            else
              let len = (- val) + 1 in
              (case rest of
                 [] \<Rightarrow> Inl SourceOverrun
               | v # rest' \<Rightarrow>
                   if counter - len < - (2 ^ 31) then Inl IntOverflow
                   else Inr (rest',
                             if writes_run bmhd counter then dest @ replicate (nat len) v else dest,
                             counter - len))))"

lemma byterun_step_shorter:
  "byterun_step bmhd (src, dest, counter) = Inr (src', dest', counter') \<Longrightarrow> length src' < length src"
  by (auto simp: byterun_step_def Let_def split: list.splits if_splits)

text \<open>Lines 475-510: the loop runs until the counter is exactly zero.\<close>

function decompress_row ::
  "BitMapHeader_Type \<Rightarrow> byte list \<Rightarrow> byte list \<Rightarrow> int \<Rightarrow> error + (byte list \<times> byte list)" where
  "decompress_row bmhd src dest counter =
     (if counter = 0 then Inr (src, dest)
      else case byterun_step bmhd (src, dest, counter) of
             Inl e \<Rightarrow> Inl e
           | Inr (src', dest', counter') \<Rightarrow> decompress_row bmhd src' dest' counter')"
  by pat_completeness auto
termination
  by (relation "measure (\<lambda>(bmhd, src, dest, counter). length src)")
     (auto dest: byterun_step_shorter)

declare decompress_row.simps [simp del]

text \<open>Lines 465-519: one row, decompressed or copied as it is. A negative length handed
  to \<open>memcpy\<close> is a read past the source.\<close>

definition transfer_row ::
  "BitMapHeader_Type \<Rightarrow> byte list \<Rightarrow> byte list \<Rightarrow> error + (byte list \<times> byte list)" where
  "transfer_row bmhd src dest =
     (let counter = row_counter bmhd in
      if Compression bmhd = 1 then decompress_row bmhd src dest counter
      else if counter < 0 \<or> int (length src) < counter then Inl SourceOverrun
      else Inr (drop (nat counter) src, dest @ take (nat counter) src))"

text \<open>Line 459: \<open>for (index = 0; index < (short)bmhd.H; index++)\<close>, by the rows left.\<close>

fun transfer_rows ::
  "BitMapHeader_Type \<Rightarrow> nat \<Rightarrow> byte list \<Rightarrow> byte list \<Rightarrow> error + (byte list \<times> byte list)" where
  "transfer_rows bmhd 0 src dest = Inr (src, dest)"
| "transfer_rows bmhd (Suc n) src dest =
     (case transfer_row bmhd src dest of
        Inl e \<Rightarrow> Inl e
      | Inr (src', dest') \<Rightarrow> transfer_rows bmhd n src' dest')"

definition body_rows :: "BitMapHeader_Type \<Rightarrow> nat" where
  "body_rows bmhd = nat (sint (H bmhd))"

subsection \<open>Decoding the header\<close>

text \<open>Modelled from the spec: \<open>Reverse_Short\<close> is declared outside this file; it corrects a
  big-endian 16-bit field to the host's order by exchanging its two bytes.\<close>

definition Reverse_Short :: "16 word \<Rightarrow> 16 word" where
  "Reverse_Short x = push_bit 8 x OR drop_bit 8 x"

text \<open>A 16-bit field as the little-endian host finds it in memory: the first byte of the
  stream is the low byte.\<close>

definition host_short :: "byte \<Rightarrow> byte \<Rightarrow> 16 word" where
  "host_short b0 b1 = ucast b0 OR push_bit 8 (ucast b1)"

text \<open>The same two bytes read as the big-endian number the file means.\<close>

definition stream_short :: "byte \<Rightarrow> byte \<Rightarrow> 16 word" where
  "stream_short b0 b1 = push_bit 8 (ucast b0) OR ucast b1"

text \<open>The 20 bytes of the structure, in the order of its declaration (lines 82-100).\<close>

definition raw_header :: "byte list \<Rightarrow> BitMapHeader_Type" where
  "raw_header bs =
     \<lparr> W = host_short (bs ! 0) (bs ! 1),
       H = host_short (bs ! 2) (bs ! 3),
       X = host_short (bs ! 4) (bs ! 5),
       Y = host_short (bs ! 6) (bs ! 7),
       BPlanes = bs ! 8,
       Masking = bs ! 9,
       Compression = bs ! 10,
       pad = bs ! 11,
       Transparent = host_short (bs ! 12) (bs ! 13),
       XAspect = bs ! 14,
       YAspect = bs ! 15,
       PageWidth = host_short (bs ! 16) (bs ! 17),
       PageHeight = host_short (bs ! 18) (bs ! 19) \<rparr>"

text \<open>Lines 373-389, the IBM conversions, statement by statement.\<close>

definition ibm_conversions :: "BitMapHeader_Type \<Rightarrow> BitMapHeader_Type" where
  "ibm_conversions bmhd0 =
     (let bmhd1 = bmhd0\<lparr>W := Reverse_Short (W bmhd0)\<rparr>;
          bmhd2 = bmhd1\<lparr>H := Reverse_Short (H bmhd1)\<rparr>;
          bmhd3 = bmhd2\<lparr>X := Reverse_Short (X bmhd2)\<rparr>;
          bmhd4 = bmhd3\<lparr>Y := Reverse_Short (Y bmhd3)\<rparr>;
          val = XAspect bmhd4;
          bmhd5 = bmhd4\<lparr>XAspect := YAspect bmhd4\<rparr>;
          bmhd6 = bmhd5\<lparr>YAspect := val\<rparr>;
          bmhd7 = bmhd6\<lparr>PageWidth := Reverse_Short (PageWidth bmhd6)\<rparr>
      in bmhd7\<lparr>PageHeight := Reverse_Short (PageHeight bmhd7)\<rparr>)"

text \<open>Lines 391-392.\<close>

definition validate_header :: "BitMapHeader_Type \<Rightarrow> error + BitMapHeader_Type" where
  "validate_header bmhd =
     (if Masking bmhd > 2 then Inl UnsupportedMasking
      else if Compression bmhd > 1 then Inl UnsupportedCompression
      else Inr bmhd)"

text \<open>Modelled from the spec: \<open>Read_Iff_Chunk\<close> is declared in iff.h. It delivers the
  payload of the named chunk, at most the number of bytes asked for, and their count;
  a chunk that is not found delivers nothing.\<close>

definition Read_Iff_Chunk :: "byte list option \<Rightarrow> int \<Rightarrow> byte list" where
  "Read_Iff_Chunk chunk maxsize =
     (case chunk of None \<Rightarrow> [] | Some payload \<Rightarrow> take (nat maxsize) payload)"

text \<open>The bytes of a buffer after a read of \<open>bs\<close> into its start.\<close>

definition overwrite :: "byte list \<Rightarrow> byte list \<Rightarrow> byte list" where
  "overwrite bs buf = bs @ drop (length bs) buf"

text \<open>Lines 371-396. The structure is a local variable: where the chunk is shorter than
  the structure, the rest keeps what the stack held, \<open>stack\<close>.\<close>

definition load_header :: "byte list option \<Rightarrow> byte list \<Rightarrow> error + BitMapHeader_Type" where
  "load_header chunk stack =
     (let bs = Read_Iff_Chunk chunk 20 in
      if length bs \<noteq> 0 then validate_header (ibm_conversions (raw_header (overwrite bs stack)))
      else Inl MissingHeader)"

subsection \<open>The palette\<close>

text \<open>Lines 429-431: the MCGA conversion, one byte out for each byte in.\<close>

fun cmap_to_mcga :: "byte list \<Rightarrow> byte list" where
  "cmap_to_mcga [] = []"
| "cmap_to_mcga (source # rest) = drop_bit 2 source # cmap_to_mcga rest"

text \<open>Lines 399-450. \<open>1 << bmhd.BPlanes\<close> is defined for shifts from 0 to 30 only, and
  three times the result must fit the int.\<close>

definition load_palette :: "BitMapHeader_Type \<Rightarrow> byte list option \<Rightarrow> byte list \<Rightarrow> error + byte list" where
  "load_palette bmhd cmap palette =
     (if sint (BPlanes bmhd) < 0 \<or> sint (BPlanes bmhd) > 29 then Inl IntOverflow
      else
        let pbytes = (2 ^ nat (sint (BPlanes bmhd))) * 3;
            paletteptr = Read_Iff_Chunk cmap pbytes
        in if length paletteptr \<noteq> 0 then
             (if length palette < length paletteptr then Inl DestOverrun
              else Inr (overwrite (cmap_to_mcga paletteptr) palette))
           else Inr palette)"

subsection \<open>ILBM to MCGA\<close>

definition read_byte :: "byte list \<Rightarrow> int \<Rightarrow> error + byte" where
  "read_byte buf i =
     (if 0 \<le> i \<and> i < int (length buf) then Inr (buf ! nat i) else Inl SourceOverrun)"

text \<open>Lines 163-165: the byte of each bitplane, 40 bytes apart, into \<open>bytes[8]\<close>;
  \<open>k\<close> counts the planes still to fetch.\<close>

fun get_planes :: "byte list \<Rightarrow> int \<Rightarrow> nat \<Rightarrow> nat \<Rightarrow> byte list \<Rightarrow> error + byte list" where
  "get_planes src source bplane 0 bytes = Inr bytes"
| "get_planes src source bplane (Suc k) bytes =
     (if bplane \<ge> 8 then Inl PlaneOverflow
      else case read_byte src (source + int bplane * 40) of
             Inl e \<Rightarrow> Inl e
           | Inr b \<Rightarrow> get_planes src source (Suc bplane) k (bytes[bplane := b]))"

text \<open>Lines 173-177: \<open>bplane\<close> runs from the highest plane down to plane 0.\<close>

fun roll_bits :: "nat \<Rightarrow> byte list \<Rightarrow> byte \<Rightarrow> byte \<times> byte list" where
  "roll_bits 0 bytes val = (val, bytes)"
| "roll_bits (Suc bplane) bytes val =
     (let val1 = push_bit 1 val;
          val2 = (if bytes ! bplane AND 0x80 \<noteq> 0 then val1 OR 1 else val1)
      in roll_bits bplane (bytes[bplane := push_bit 1 (bytes ! bplane)]) val2)"

text \<open>Lines 169-179: the pixels of one group; \<open>i\<close> counts the pixels still to come.\<close>

fun roll_pixels :: "nat \<Rightarrow> nat \<Rightarrow> byte list \<Rightarrow> byte list \<times> byte list" where
  "roll_pixels 0 planes bytes = ([], bytes)"
| "roll_pixels (Suc i) planes bytes =
     (case roll_bits planes bytes 0 of
        (val, bytes1) \<Rightarrow>
          (case roll_pixels i planes bytes1 of
             (vals, bytes2) \<Rightarrow> (val # vals, bytes2)))"

text \<open>Lines 159-180: the groups of one line; \<open>j\<close> counts the groups still to come.\<close>

fun convert_line ::
  "byte list \<Rightarrow> nat \<Rightarrow> nat \<Rightarrow> int \<Rightarrow> byte list \<Rightarrow> byte list \<Rightarrow> error + (int \<times> byte list \<times> byte list)" where
  "convert_line src planes 0 source bytes destination = Inr (source, bytes, destination)"
| "convert_line src planes (Suc j) source bytes destination =
     (case get_planes src source 0 planes bytes of
        Inl e \<Rightarrow> Inl e
      | Inr bytes1 \<Rightarrow>
          (case roll_pixels 8 planes bytes1 of
             (vals, bytes2) \<Rightarrow> convert_line src planes j (source + 1) bytes2 (destination @ vals)))"

text \<open>Lines 155-184: the lines of the picture; \<open>n\<close> counts the lines still to come.\<close>

fun convert_lines ::
  "byte list \<Rightarrow> int \<Rightarrow> nat \<Rightarrow> int \<Rightarrow> byte list \<Rightarrow> byte list \<Rightarrow> error + byte list" where
  "convert_lines src planes 0 source bytes destination = Inr destination"
| "convert_lines src planes (Suc n) source bytes destination =
     (case convert_line src (nat planes) 40 source bytes destination of
        Inl e \<Rightarrow> Inl e
      | Inr (source1, bytes1, destination1) \<Rightarrow>
          convert_lines src planes n (source1 + 40 * (planes - 1)) bytes1 destination1)"

text \<open>Lines 139-185. The result is the bytes written to the destination.\<close>

definition ILBM_To_MCGA :: "byte list \<Rightarrow> int \<Rightarrow> error + byte list" where
  "ILBM_To_MCGA src planes = convert_lines src planes 200 0 (replicate 8 0) []"

subsection \<open>Load\_Picture\<close>

datatype PicturePlaneType = BM_AMIGA | BM_MCGA

datatype IFFForm_Type = FORM_ILBM | FORM_PBM

definition ID_FORM :: "byte list" where "ID_FORM = [0x46, 0x4F, 0x52, 0x4D]"
definition ID_ILBM :: "byte list" where "ID_ILBM = [0x49, 0x4C, 0x42, 0x4D]"
definition ID_PBM :: "byte list" where "ID_PBM = [0x50, 0x42, 0x4D, 0x20]"

text \<open>
  What the file system and the collaborators outside this file answer during one call:
  whether the file opens, the four bytes of each identifier read, the chunks found, the
  stack under the header structure, and the raw loader \<open>Load_Uncompress\<close>, which gets
  the two buffers and the palette and returns its size (already cast to int) and what it
  left in them.
\<close>

record picture_file =
  file_opens :: bool
  file_id :: "byte list"
  Load_Uncompress ::
    "byte list \<Rightarrow> byte list \<Rightarrow> byte list option \<Rightarrow> int \<times> byte list \<times> byte list \<times> byte list option"
  iff_opens :: bool
  form_id :: "byte list"
  bmhd_chunk :: "byte list option"
  cmap_chunk :: "byte list option"
  body_chunk :: "byte list option"
  stack_bytes :: "byte list"

text \<open>The division of two ints in C rounds towards zero.\<close>

definition c_div :: "int \<Rightarrow> int \<Rightarrow> int" where
  "c_div a b = sgn a * sgn b * (\<bar>a\<bar> div \<bar>b\<bar>)"

text \<open>Lines 360-368.\<close>

definition form_type :: "byte list \<Rightarrow> error + IFFForm_Type" where
  "form_type ifftype =
     (if ifftype = ID_ILBM then Inr FORM_ILBM
      else if ifftype = ID_PBM then Inr FORM_PBM
      else Inl NotAPicture)"

text \<open>Lines 526-545. Without \<open>MAKE_AMIGA_ART\<close> the switch has the default case only.
  Both conversions write 64000 bytes to the start of the destination buffer.\<close>

definition convert_format ::
  "PicturePlaneType \<Rightarrow> IFFForm_Type \<Rightarrow> int \<Rightarrow> byte list \<Rightarrow> byte list \<Rightarrow> error + byte list" where
  "convert_format format formtype planes scratchbuf destbuf =
     (case formtype of
        FORM_ILBM \<Rightarrow>
          (case ILBM_To_MCGA scratchbuf planes of
             Inl e \<Rightarrow> Inl e
           | Inr pixels \<Rightarrow>
               if length destbuf < length pixels then Inl DestOverrun
               else Inr (overwrite pixels destbuf))
      | FORM_PBM \<Rightarrow>
          if length scratchbuf < 64000 then Inl SourceOverrun
          else if length destbuf < 64000 then Inl DestOverrun
          else Inr (overwrite (take 64000 scratchbuf) destbuf))"

text \<open>Lines 459-545: the rows of the body go from the destination buffer, where the chunk
  was read, to the scratch buffer, and the converted picture comes back.\<close>

definition load_body ::
  "PicturePlaneType \<Rightarrow> IFFForm_Type \<Rightarrow> BitMapHeader_Type \<Rightarrow> byte list \<Rightarrow> byte list
     \<Rightarrow> error + (byte list \<times> byte list)" where
  "load_body format formtype bmhd scratchbuf destbuf =
     (case transfer_rows bmhd (body_rows bmhd) destbuf [] of
        Inl e \<Rightarrow> Inl e
      | Inr (src, dest) \<Rightarrow>
          if length scratchbuf < length dest then Inl DestOverrun
          else
            let scratch1 = overwrite dest scratchbuf in
            (case convert_format format formtype (sint (BPlanes bmhd)) scratch1 destbuf of
               Inl e \<Rightarrow> Inl e
             | Inr dest1 \<Rightarrow> Inr (scratch1, dest1)))"

text \<open>Lines 398-450: the palette is loaded if one is asked for.\<close>

definition load_palette_opt ::
  "BitMapHeader_Type \<Rightarrow> byte list option \<Rightarrow> byte list option \<Rightarrow> error + byte list option" where
  "load_palette_opt bmhd cmap palette =
     (case palette of
        None \<Rightarrow> Inr None
      | Some p \<Rightarrow> (case load_palette bmhd cmap p of Inl e \<Rightarrow> Inl e | Inr p1 \<Rightarrow> Inr (Some p1)))"

text \<open>Lines 330-552. A result \<open>Inr (n, scratch, dest, palette)\<close> is the return of \<open>n\<close>
  with the buffers as the call leaves them; every \<open>return FALSE\<close> is an error value.\<close>

definition Load_Picture ::
  "picture_file \<Rightarrow> byte list \<Rightarrow> byte list \<Rightarrow> byte list option \<Rightarrow> PicturePlaneType
     \<Rightarrow> error + (int \<times> byte list \<times> byte list \<times> byte list option)" where
  "Load_Picture f scratchbuf destbuf palette format =
     (if \<not> file_opens f then Inl FileOpenError
      else if file_id f \<noteq> ID_FORM then
        (case Load_Uncompress f scratchbuf destbuf palette of
           (loaded, bufs) \<Rightarrow> Inr (c_div loaded 8000, bufs))
      else if \<not> iff_opens f then Inl FileOpenError
      else
        case form_type (form_id f) of
          Inl e \<Rightarrow> Inl e
        | Inr formtype \<Rightarrow>
        case load_header (bmhd_chunk f) (stack_bytes f) of
          Inl e \<Rightarrow> Inl e
        | Inr bmhd \<Rightarrow>
        case load_palette_opt bmhd (cmap_chunk f) palette of
          Inl e \<Rightarrow> Inl e
        | Inr palette1 \<Rightarrow>
            let body = Read_Iff_Chunk (body_chunk f) (int (length destbuf));
                dest1 = overwrite body destbuf
            in if length body \<noteq> 0 then
                 (case load_body format formtype bmhd scratchbuf dest1 of
                    Inl e \<Rightarrow> Inl e
                  | Inr (scratch2, dest2) \<Rightarrow> Inr (sint (BPlanes bmhd), scratch2, dest2, palette1))
               else Inr (sint (BPlanes bmhd), scratchbuf, dest1, palette1))"

text \<open>The int the caller gets: \<open>FALSE\<close> is 0. For the error values that stand for
  undefined behaviour (overruns, overflow) the C gives no value; they are 0 here as well.\<close>

definition returned :: "error + (int \<times> byte list \<times> byte list \<times> byte list option) \<Rightarrow> int" where
  "returned r = (case r of Inl e \<Rightarrow> 0 | Inr (n, bufs) \<Rightarrow> n)"

subsection \<open>Well-formed compressed rows\<close>

text \<open>
  From the spec (section 8): a row is cut into literal runs, replicate runs and no-op
  codes, and the encoded byte stream is what the decompression reads. A literal run holds
  1 to 128 bytes and a replicate run 2 to 128 copies, the lengths one control byte other
  than -128 can express.
\<close>

datatype run = Noop | Literal "byte list" | Replicate nat byte


text \<open>The bytes a run stands for.\<close>

fun run_bytes :: "run \<Rightarrow> byte list" where
  "run_bytes Noop = []"
| "run_bytes (Literal bs) = bs"
| "run_bytes (Replicate n v) = replicate n v"

text \<open>The control byte of a run and the bytes that follow it in the stream.\<close>

fun encode_run :: "run \<Rightarrow> byte list" where
  "encode_run Noop = [0x80]"
| "encode_run (Literal bs) = word_of_int (int (length bs) - 1) # bs"
| "encode_run (Replicate n v) = [word_of_int (1 - int n), v]"

definition encode_runs :: "run list \<Rightarrow> byte list" where
  "encode_runs rs = concat (map encode_run rs)"

text \<open>The bytes the runs stand for, counted.\<close>

definition total_length :: "run list \<Rightarrow> int" where
  "total_length rs = (\<Sum>r\<leftarrow>rs. int (length (run_bytes r)))"



subsection \<open>Files used as examples\<close>

text \<open>A file that does not start with FORM, with a raw loader that fills the
  destination with a 320 by 200 picture.\<close>

definition cps_file :: picture_file where
  "cps_file = \<lparr> file_opens = True, file_id = [0x40, 0x1F, 0x04, 0x00],
      Load_Uncompress = (\<lambda>s d p. (64000, s, replicate 64000 0, p)),
      iff_opens = False, form_id = [], bmhd_chunk = None, cmap_chunk = None,
      body_chunk = None, stack_bytes = [] \<rparr>"

text \<open>The header of a 320 by 200 picture of 8 bitplanes, with the masking and the
  compression bytes left open, and aspect bytes 10 and 11.\<close>

definition hdr_bytes :: "byte \<Rightarrow> byte \<Rightarrow> byte list" where
  "hdr_bytes m c =
     [0x01, 0x40, 0x00, 0xC8, 0, 0, 0, 0, 8, m, c, 0, 0, 0, 10, 11, 0x01, 0x40, 0x00, 0xC8]"

text \<open>An ILBM file with that header and no other chunk.\<close>

definition lbm_file :: "byte \<Rightarrow> byte \<Rightarrow> picture_file" where
  "lbm_file m c = \<lparr> file_opens = True, file_id = ID_FORM,
      Load_Uncompress = (\<lambda>s d p. (0, s, d, p)),
      iff_opens = True, form_id = ID_ILBM, bmhd_chunk = Some (hdr_bytes m c),
      cmap_chunk = None, body_chunk = None, stack_bytes = replicate 20 0 \<rparr>"

text \<open>A PBM file of one row of 8 pixels, one bitplane, not compressed, whose body chunk
  holds a single byte.\<close>

definition pbm_file :: picture_file where
  "pbm_file = \<lparr> file_opens = True, file_id = ID_FORM,
      Load_Uncompress = (\<lambda>s d p. (0, s, d, p)),
      iff_opens = True, form_id = ID_PBM,
      bmhd_chunk = Some [0, 8, 0, 1, 0, 0, 0, 0, 1, 0, 0, 0, 0, 0, 1, 1, 0, 8, 0, 1],
      cmap_chunk = None, body_chunk = Some [7], stack_bytes = replicate 20 0 \<rparr>"

text \<open>An ILBM file with a palette chunk of four bytes and no body chunk, and its header
  as \<open>Load_Picture\<close> decodes it.\<close>

definition cmap_file :: "picture_file" where
  "cmap_file = \<lparr> file_opens = True, file_id = ID_FORM,
      Load_Uncompress = (\<lambda>s d p. (0, s, d, p)),
      iff_opens = True, form_id = ID_ILBM, bmhd_chunk = Some (hdr_bytes 0 1),
      cmap_chunk = Some [255, 128, 3, 64], body_chunk = None, stack_bytes = replicate 20 0 \<rparr>"

definition cmap_bmhd :: BitMapHeader_Type where
  "cmap_bmhd = \<lparr> W = 320, H = 200, X = 0, Y = 0, BPlanes = 8, Masking = 0, Compression = 1,
      pad = 0, Transparent = 0, XAspect = 11, YAspect = 10, PageWidth = 320, PageHeight = 200 \<rparr>"

text \<open>A header with a mask plane: 16 pixels wide, two bytes for each plane, one bitplane,
  compressed. The row counter starts at 4 and the mask plane is its last 2 bytes.\<close>

definition mask_bmhd :: BitMapHeader_Type where
  "mask_bmhd = \<lparr> W = 16, H = 1, X = 0, Y = 0, BPlanes = 1, Masking = 1, Compression = 1,
      pad = 0, Transparent = 0, XAspect = 1, YAspect = 1, PageWidth = 16, PageHeight = 1 \<rparr>"

text \<open>Two planar pictures: one bitplane whose first byte is 1, and two bitplanes with
  the top bit of the third byte set.\<close>

definition unit_src :: "byte list" where
  "unit_src = 0x01 # replicate 7999 0"

definition stripe_src :: "byte list" where
  "stripe_src = [0, 0, 0x80] @ replicate 15997 0"

text \<open>The PBM file with a body chunk of two bytes, and its header as decoded.\<close>

definition pbm_file2 :: picture_file where
  "pbm_file2 = pbm_file\<lparr>body_chunk := Some [7, 9]\<rparr>"

definition pbm_bmhd :: BitMapHeader_Type where
  "pbm_bmhd = \<lparr> W = 8, H = 1, X = 0, Y = 0, BPlanes = 1, Masking = 0, Compression = 0, pad = 0,
      Transparent = 0, XAspect = 1, YAspect = 1, PageWidth = 8, PageHeight = 1 \<rparr>"

text \<open>A header with a mask plane and a width of 32768, which is negative as a short.\<close>

definition wide_bmhd :: BitMapHeader_Type where
  "wide_bmhd = \<lparr> W = 0x8000, H = 1, X = 0, Y = 0, BPlanes = 1, Masking = 1, Compression = 1,
      pad = 0, Transparent = 0, XAspect = 1, YAspect = 1, PageWidth = 0, PageHeight = 1 \<rparr>"

section \<open>Properties\<close>

subsection \<open>The fallback to the raw loader\<close>

lemma c_div_nonneg: "0 \<le> a \<Longrightarrow> 0 < b \<Longrightarrow> c_div a b = a div b"
  by (cases "a = 0") (simp_all add: c_div_def)

text \<open>
  C8. When the file opens and its first four bytes are not FORM, \<open>Load_Picture\<close> hands
  the buffers to \<open>Load_Uncompress\<close> and returns the size that loader reports divided by
  8000 (the division of C; the plain quotient for a size that is not negative), with the
  buffers as the loader left them. No chunk of the file enters the result.
\<close>

theorem raw_fallback:
  assumes "file_opens f" and "file_id f \<noteq> ID_FORM"
    and "Load_Uncompress f scratchbuf destbuf palette = (loaded, bufs)"
  shows "Load_Picture f scratchbuf destbuf palette format = Inr (c_div loaded 8000, bufs) \<and>
         (0 \<le> loaded \<longrightarrow>
            returned (Load_Picture f scratchbuf destbuf palette format) = loaded div 8000)"
  using assms by (simp add: Load_Picture_def returned_def c_div_nonneg)

theorem raw_fallback_witness:
  "file_opens cps_file \<and> file_id cps_file \<noteq> ID_FORM \<and>
   Load_Picture cps_file [] [] None BM_MCGA = Inr (8, [], replicate 64000 0, None) \<and>
   returned (Load_Picture cps_file [] [] None BM_MCGA) = 8"
  using raw_fallback [of cps_file "[]" "[]" None 64000 "([], replicate 64000 0, None)" BM_MCGA]
  by (simp add: cps_file_def ID_FORM_def c_div_def returned_def)

subsection \<open>Validation of the header\<close>

lemma lbm_file_simps:
  "file_opens (lbm_file m c)" "file_id (lbm_file m c) = ID_FORM" "iff_opens (lbm_file m c)"
  "form_type (form_id (lbm_file m c)) = Inr FORM_ILBM"
  "Read_Iff_Chunk (bmhd_chunk (lbm_file m c)) 20 = hdr_bytes m c"
  "stack_bytes (lbm_file m c) = replicate 20 0" "hdr_bytes m c \<noteq> []"
  by (simp_all add: lbm_file_def form_type_def Read_Iff_Chunk_def hdr_bytes_def)

lemma lbm_header:
  "Masking (ibm_conversions (raw_header (overwrite (hdr_bytes m c) (replicate 20 0)))) = m"
  "Compression (ibm_conversions (raw_header (overwrite (hdr_bytes m c) (replicate 20 0)))) = c"
  by (simp_all add: ibm_conversions_def raw_header_def overwrite_def hdr_bytes_def Let_def)

text \<open>
  C5. For a file that opens as an IFF picture and whose header chunk is read, with
  \<open>bmhd\<close> the header after the conversions: a masking byte above 2 ends the load with
  \<open>UnsupportedMasking\<close>; a compression byte above 1 (the masking byte being accepted,
  since the masking test comes first) ends it with \<open>UnsupportedCompression\<close>; in both
  cases the call returns \<open>FALSE\<close> and no buffer is touched.
\<close>

theorem header_validation:
  assumes "file_opens f" and "file_id f = ID_FORM" and "iff_opens f"
    and "form_type (form_id f) = Inr formtype"
    and "Read_Iff_Chunk (bmhd_chunk f) 20 \<noteq> []"
    and "bmhd = ibm_conversions
                  (raw_header (overwrite (Read_Iff_Chunk (bmhd_chunk f) 20) (stack_bytes f)))"
  shows "(Masking bmhd > 2 \<longrightarrow>
           Load_Picture f scratchbuf destbuf palette format = Inl UnsupportedMasking) \<and>
         (Compression bmhd > 1 \<and> Masking bmhd \<le> 2 \<longrightarrow>
           Load_Picture f scratchbuf destbuf palette format = Inl UnsupportedCompression) \<and>
         (Masking bmhd > 2 \<or> Compression bmhd > 1 \<longrightarrow>
           returned (Load_Picture f scratchbuf destbuf palette format) = 0)"
  using assms
  by (auto simp add: Load_Picture_def load_header_def validate_header_def returned_def Let_def)

theorem header_validation_witness:
  "Load_Picture (lbm_file 3 0) [] [] None BM_MCGA = Inl UnsupportedMasking \<and>
   Load_Picture (lbm_file 0 2) [] [] None BM_MCGA = Inl UnsupportedCompression \<and>
   returned (Load_Picture (lbm_file 3 0) [] [] None BM_MCGA) = 0 \<and>
   returned (Load_Picture (lbm_file 0 2) [] [] None BM_MCGA) = 0"
  using header_validation [of "lbm_file 3 0" FORM_ILBM _ "[]" "[]" None BM_MCGA, OF _ _ _ _ _ refl]
        header_validation [of "lbm_file 0 2" FORM_ILBM _ "[]" "[]" None BM_MCGA, OF _ _ _ _ _ refl]
  by (simp add: lbm_file_simps lbm_header returned_def)

subsection \<open>A body chunk that is short or absent\<close>

lemma pbm_header: "load_header (bmhd_chunk pbm_file) (stack_bytes pbm_file) =
   Inr \<lparr> W = 8, H = 1, X = 0, Y = 0, BPlanes = 1, Masking = 0, Compression = 0, pad = 0,
         Transparent = 0, XAspect = 1, YAspect = 1, PageWidth = 8, PageHeight = 1 \<rparr>"
  by (simp add: pbm_file_def load_header_def Read_Iff_Chunk_def overwrite_def raw_header_def
       ibm_conversions_def validate_header_def Let_def host_short_def Reverse_Short_def)

lemma pbm_file_simps:
  "file_opens pbm_file" "file_id pbm_file = ID_FORM" "iff_opens pbm_file"
  "form_type (form_id pbm_file) = Inr FORM_PBM" "body_chunk pbm_file = Some [7]"
  "cmap_chunk pbm_file = None"
  by (simp_all add: pbm_file_def form_type_def ID_PBM_def ID_ILBM_def)

lemma scratch_changed: "(7 # replicate 63999 (0::byte)) \<noteq> replicate 64000 0"
proof
  assume "(7 # replicate 63999 (0::byte)) = replicate 64000 0"
  then have "hd (7 # replicate 63999 (0::byte)) = hd (replicate 64000 0)" by (rule arg_cong)
  then show False by (simp add: hd_replicate)
qed

text \<open>
  C6 as stated fails: a body read of one byte into a destination of 64000 bytes is
  shorter than the capacity, and the row is still transferred to the scratch buffer and
  the picture copied back; the scratch buffer is no longer what it was.
\<close>

theorem short_body_counterexample:
  "length (Read_Iff_Chunk (body_chunk pbm_file) 64000) < length (replicate 64000 (0xAA :: byte)) \<and>
   Load_Picture pbm_file (replicate 64000 0) (replicate 64000 0xAA) None BM_MCGA =
     Inr (1, 7 # replicate 63999 0, 7 # replicate 63999 0, None) \<and>
   (7 # replicate 63999 (0::byte)) \<noteq> replicate 64000 0"
  by (simp add: Load_Picture_def pbm_header pbm_file_simps load_palette_opt_def Let_def
      Read_Iff_Chunk_def overwrite_def scratch_changed
      load_body_def body_rows_def transfer_row_def row_counter_def plane_bytes_def convert_format_def)

text \<open>
  C6, amended. The test of line 457 is whether the read of the body chunk delivered any
  byte at all. When it delivers none (the chunk is absent or empty), the rows are not
  transferred and nothing is converted: both buffers stay as they are, and
  \<open>Load_Picture\<close> still returns the bitplane count of the header. When it delivers at
  least one byte, however few, the rows are transferred from the destination buffer and
  the picture is converted: \<open>Load_Picture\<close> ends as \<open>load_body\<close> does, and where the rows
  and the conversion go through it returns the bitplane count with the rows in the
  scratch buffer and the converted picture in the destination buffer.
\<close>

theorem body_read_decides:
  assumes "file_opens f" and "file_id f = ID_FORM" and "iff_opens f"
    and "form_type (form_id f) = Inr formtype"
    and "load_header (bmhd_chunk f) (stack_bytes f) = Inr bmhd"
    and "load_palette_opt bmhd (cmap_chunk f) palette = Inr palette1"
    and "body = Read_Iff_Chunk (body_chunk f) (int (length destbuf))"
    and "dest1 = overwrite body destbuf"
  shows "(body = [] \<longrightarrow>
            Load_Picture f scratchbuf destbuf palette format =
              Inr (sint (BPlanes bmhd), scratchbuf, destbuf, palette1)) \<and>
         (body \<noteq> [] \<longrightarrow>
            Load_Picture f scratchbuf destbuf palette format =
              (case load_body format formtype bmhd scratchbuf dest1 of
                 Inl e \<Rightarrow> Inl e
               | Inr (scratch2, dest2) \<Rightarrow> Inr (sint (BPlanes bmhd), scratch2, dest2, palette1))) \<and>
         (body \<noteq> [] \<and> transfer_rows bmhd (body_rows bmhd) dest1 [] = Inr (src, rows) \<and>
          length rows \<le> length scratchbuf \<and>
          convert_format format formtype (sint (BPlanes bmhd)) (overwrite rows scratchbuf) dest1
            = Inr dest2 \<longrightarrow>
            Load_Picture f scratchbuf destbuf palette format =
              Inr (sint (BPlanes bmhd), overwrite rows scratchbuf, dest2, palette1))"
  using assms by (auto simp add: Load_Picture_def overwrite_def load_body_def Let_def)

lemma cmap_file_simps:
  "file_opens cmap_file" "file_id cmap_file = ID_FORM" "iff_opens cmap_file"
  "form_type (form_id cmap_file) = Inr FORM_ILBM" "body_chunk cmap_file = None"
  "cmap_chunk cmap_file = Some [255, 128, 3, 64]"
  by (simp_all add: cmap_file_def form_type_def)

lemma cmap_header: "load_header (bmhd_chunk cmap_file) (stack_bytes cmap_file) = Inr cmap_bmhd"
  by (simp add: cmap_file_def hdr_bytes_def load_header_def Read_Iff_Chunk_def overwrite_def
       raw_header_def ibm_conversions_def validate_header_def Let_def host_short_def
       Reverse_Short_def cmap_bmhd_def)

lemma cmap_palette:
  "load_palette_opt cmap_bmhd (Some [255, 128, 3, 64]) (Some [9, 9, 9, 9, 9]) =
     Inr (Some [63, 32, 0, 16, 9])"
  by (simp add: load_palette_opt_def load_palette_def cmap_bmhd_def Read_Iff_Chunk_def
       overwrite_def Let_def)

lemma pbm_file2_simps:
  "file_opens pbm_file2" "file_id pbm_file2 = ID_FORM" "iff_opens pbm_file2"
  "form_type (form_id pbm_file2) = Inr FORM_PBM" "body_chunk pbm_file2 = Some [7, 9]"
  "cmap_chunk pbm_file2 = None"
  "load_header (bmhd_chunk pbm_file2) (stack_bytes pbm_file2) = Inr pbm_bmhd"
  using pbm_header by (simp_all add: pbm_file2_def pbm_file_simps pbm_bmhd_def)

lemma pbm_bmhd_simps:
  "sint (BPlanes pbm_bmhd) = 1" "body_rows pbm_bmhd = 1" "row_counter pbm_bmhd = 1"
  "Compression pbm_bmhd = 0"
  by (simp_all add: pbm_bmhd_def body_rows_def row_counter_def plane_bytes_def)

theorem body_read_decides_witness:
  "Load_Picture cmap_file [1, 2] [3, 4] (Some [9, 9, 9, 9, 9]) BM_MCGA =
     Inr (8, [1, 2], [3, 4], Some [63, 32, 0, 16, 9]) \<and>
   Load_Picture pbm_file2 (replicate 64000 0) (replicate 64000 0xAA) None BM_MCGA =
     Inr (1, 7 # replicate 63999 0, 7 # replicate 63999 0, None)"
proof -
  have "Load_Picture cmap_file [1, 2] [3, 4] (Some [9, 9, 9, 9, 9]) BM_MCGA =
          Inr (sint (BPlanes cmap_bmhd), [1, 2], [3, 4], Some [63, 32, 0, 16, 9])"
    using body_read_decides [of cmap_file FORM_ILBM cmap_bmhd "Some [9, 9, 9, 9, 9]"
        "Some [63, 32, 0, 16, 9]" "[]" "[3, 4]" "[3, 4]" "[1, 2]" BM_MCGA, OF _ _ _ _ cmap_header]
    by (simp add: cmap_file_simps cmap_palette Read_Iff_Chunk_def overwrite_def)
  moreover have "Load_Picture pbm_file2 (replicate 64000 0) (replicate 64000 0xAA) None BM_MCGA =
          Inr (sint (BPlanes pbm_bmhd), 7 # replicate 63999 0, 7 # replicate 63999 0, None)"
    using body_read_decides [of pbm_file2 FORM_PBM pbm_bmhd None None "[7, 9]"
        "replicate 64000 0xAA" "[7, 9] @ replicate 63998 0xAA" "replicate 64000 0" BM_MCGA
        "9 # replicate 63998 0xAA" "[7]" "7 # replicate 63999 0"]
    by (auto simp add: pbm_file2_simps pbm_bmhd_simps load_palette_opt_def Read_Iff_Chunk_def
          overwrite_def transfer_row_def convert_format_def)
  ultimately show ?thesis by (simp add: cmap_bmhd_def pbm_bmhd_simps)
qed

subsection \<open>The palette\<close>

lemma cmap_to_mcga_map: "cmap_to_mcga bs = map (\<lambda>b. drop_bit 2 b) bs"
  by (induction bs) simp_all

text \<open>
  C9. With \<open>bs\<close> the bytes read from the palette chunk (at most three for each of the
  \<open>2 ^ BPlanes\<close> colours; none when the chunk is absent), the palette buffer receives one
  byte for each byte read, the byte shifted right by two, and keeps the rest of its
  content; the conversion has no error result. The plane count must allow the shift
  \<open>1 << BPlanes\<close> and the palette buffer must hold the bytes read.
\<close>

theorem palette_truncation:
  assumes "0 \<le> sint (BPlanes bmhd)" and "sint (BPlanes bmhd) \<le> 29"
    and "bs = Read_Iff_Chunk cmap (2 ^ nat (sint (BPlanes bmhd)) * 3)"
    and "length bs \<le> length palette"
  shows "load_palette bmhd cmap palette = Inr (cmap_to_mcga bs @ drop (length bs) palette) \<and>
         cmap_to_mcga bs = map (\<lambda>b. drop_bit 2 b) bs \<and>
         length (cmap_to_mcga bs) = length bs"
  using assms by (auto simp add: load_palette_def Let_def overwrite_def cmap_to_mcga_map)

theorem palette_truncation_witness:
  "load_palette cmap_bmhd (Some [255, 128, 3, 64]) [9, 9, 9, 9, 9, 9, 9] =
     Inr [63, 32, 0, 16, 9, 9, 9] \<and>
   load_palette cmap_bmhd None [9, 9, 9, 9, 9, 9, 9] = Inr [9, 9, 9, 9, 9, 9, 9]"
  using palette_truncation [of cmap_bmhd _ "Some [255, 128, 3, 64]" "[9, 9, 9, 9, 9, 9, 9]",
          OF _ _ refl]
        palette_truncation [of cmap_bmhd _ "None" "[9, 9, 9, 9, 9, 9, 9]", OF _ _ refl]
  by (simp add: Read_Iff_Chunk_def cmap_bmhd_def)

subsection \<open>The conversions of the header\<close>

lemma Reverse_host: "Reverse_Short (host_short b0 b1) = stream_short b0 b1"
  unfolding Reverse_Short_def host_short_def stream_short_def
  by (rule bit_word_eqI) (auto simp add: bit_simps dest: bit_imp_le_length)

text \<open>The header after lines 373-389, field by field, for the 20 bytes \<open>bs\<close> of the
  structure: six of the seven 16-bit fields hold the big-endian number of the stream, the
  two aspect bytes have changed places, and \<open>Transparent\<close> is as the host read it.\<close>

lemma header_decoding:
  "ibm_conversions (raw_header bs) =
     \<lparr> W = stream_short (bs ! 0) (bs ! 1),
       H = stream_short (bs ! 2) (bs ! 3),
       X = stream_short (bs ! 4) (bs ! 5),
       Y = stream_short (bs ! 6) (bs ! 7),
       BPlanes = bs ! 8,
       Masking = bs ! 9,
       Compression = bs ! 10,
       pad = bs ! 11,
       Transparent = host_short (bs ! 12) (bs ! 13),
       XAspect = bs ! 15,
       YAspect = bs ! 14,
       PageWidth = stream_short (bs ! 16) (bs ! 17),
       PageHeight = stream_short (bs ! 18) (bs ! 19) \<rparr>"
  by (simp add: ibm_conversions_def raw_header_def Let_def Reverse_host)

text \<open>
  C7 at a header whose transparent colour is 1 (stream bytes 00 01) and whose aspect bytes
  are 10 and 11: the width comes out as 320 and the aspect bytes exchanged, as the claim
  says, but the transparent colour comes out as 256, the two bytes still in stream order.
\<close>

theorem transparent_not_reversed:
  "Transparent (ibm_conversions (raw_header
      [0x01, 0x40, 0x00, 0xC8, 0, 0, 0, 0, 8, 0, 1, 0, 0x00, 0x01, 10, 11, 0x01, 0x40, 0x00, 0xC8]))
     = 256 \<and>
   stream_short 0x00 0x01 = 1 \<and>
   W (ibm_conversions (raw_header
      [0x01, 0x40, 0x00, 0xC8, 0, 0, 0, 0, 8, 0, 1, 0, 0x00, 0x01, 10, 11, 0x01, 0x40, 0x00, 0xC8]))
     = 320 \<and>
   XAspect (ibm_conversions (raw_header
      [0x01, 0x40, 0x00, 0xC8, 0, 0, 0, 0, 8, 0, 1, 0, 0x00, 0x01, 10, 11, 0x01, 0x40, 0x00, 0xC8]))
     = 11 \<and>
   YAspect (ibm_conversions (raw_header
      [0x01, 0x40, 0x00, 0xC8, 0, 0, 0, 0, 8, 0, 1, 0, 0x00, 0x01, 10, 11, 0x01, 0x40, 0x00, 0xC8]))
     = 10"
  by (simp add: header_decoding host_short_def stream_short_def)

subsection \<open>The byte run decompression\<close>

lemma mask_limit_plane_bytes: "uint (W bmhd) < 32768 \<Longrightarrow> mask_limit bmhd = plane_bytes bmhd"
  unfolding mask_limit_def plane_bytes_def
  by (simp add: sint_uint signed_take_bit_eq_if_positive bit_iff_odd take_bit_int_eq_self)

lemma step_cases:
  assumes "byterun_step bmhd (src, dest, counter) = Inr (src', dest', counter')"
  obtains (noop) c where "src = c # src'" "sint c = - 128" "dest' = dest" "counter' = counter"
  | (literal) c rest where "src = c # rest" "0 \<le> sint c" "int (length rest) \<ge> sint c + 1"
      "src' = drop (nat (sint c + 1)) rest" "counter' = counter - (sint c + 1)"
      "dest' = (if writes_run bmhd counter then dest @ take (nat (sint c + 1)) rest else dest)"
  | (replicate) c v where "src = c # v # src'" "sint c < 0" "sint c \<noteq> - 128"
      "counter' = counter - (1 - sint c)"
      "dest' = (if writes_run bmhd counter then dest @ replicate (nat (1 - sint c)) v else dest)"
  using assms
  by (auto simp: byterun_step_def Let_def split: list.splits if_splits)

lemma step_counter_le:
  "byterun_step bmhd (src, dest, counter) = Inr (src', dest', counter') \<Longrightarrow> counter' \<le> counter"
  by (erule step_cases) auto

lemma negative_never_returns:
  "counter < 0 \<Longrightarrow> decompress_row bmhd src dest counter \<noteq> Inr r"
proof (induction bmhd src dest counter rule: decompress_row.induct)
  case (1 bmhd src dest counter)
  show ?case
  proof (cases "byterun_step bmhd (src, dest, counter)")
    case (Inl e)
    with "1.prems" show ?thesis by (simp add: decompress_row.simps)
  next
    case (Inr s)
    obtain src' dest' counter' where s: "s = (src', dest', counter')" by (cases s) auto
    from Inr s have "counter' \<le> counter" by (auto dest: step_counter_le)
    with "1.prems" have "counter' < 0" by simp
    with "1.IH" [OF _ Inr s [symmetric] refl] "1.prems"
    have "decompress_row bmhd src' dest' counter' \<noteq> Inr r" by simp
    with Inr s "1.prems" show ?thesis by (simp add: decompress_row.simps)
  qed
qed


lemma unmasked_exact:
  "Masking bmhd \<noteq> 1 \<Longrightarrow> decompress_row bmhd src dest counter = Inr (src', dest') \<Longrightarrow>
   int (length dest') = int (length dest) + counter"
proof (induction bmhd src dest counter rule: decompress_row.induct)
  case (1 bmhd src dest counter)
  show ?case
  proof (cases "counter = 0")
    case True
    with "1.prems" show ?thesis by (simp add: decompress_row.simps)
  next
    case False
    show ?thesis
    proof (cases "byterun_step bmhd (src, dest, counter)")
      case (Inl e)
      with False "1.prems" show ?thesis by (simp add: decompress_row.simps)
    next
      case (Inr s)
      obtain s1 d1 c1 where s: "s = (s1, d1, c1)" by (cases s) auto
      from Inr s False "1.prems"
      have rec: "decompress_row bmhd s1 d1 c1 = Inr (src', dest')"
        by (simp add: decompress_row.simps)
      from "1.IH" [OF False Inr s [symmetric] refl "1.prems"(1) rec]
      have "int (length dest') = int (length d1) + c1" .
      moreover from Inr s "1.prems"(1) have "int (length d1) + c1 = int (length dest) + counter"
        by (auto elim!: step_cases simp: writes_run_def)
      ultimately show ?thesis by simp
    qed
  qed
qed

lemma masked_region_silent:
  "Masking bmhd = 1 \<Longrightarrow> counter \<le> mask_limit bmhd \<Longrightarrow>
   decompress_row bmhd src dest counter = Inr (src', dest') \<Longrightarrow> dest' = dest"
proof (induction bmhd src dest counter rule: decompress_row.induct)
  case (1 bmhd src dest counter)
  show ?case
  proof (cases "counter = 0")
    case True
    with "1.prems" show ?thesis by (simp add: decompress_row.simps)
  next
    case False
    show ?thesis
    proof (cases "byterun_step bmhd (src, dest, counter)")
      case (Inl e)
      with False "1.prems" show ?thesis by (simp add: decompress_row.simps)
    next
      case (Inr s)
      obtain s1 d1 c1 where s: "s = (s1, d1, c1)" by (cases s) auto
      from Inr s False "1.prems"
      have rec: "decompress_row bmhd s1 d1 c1 = Inr (src', dest')"
        by (simp add: decompress_row.simps)
      from Inr s "1.prems"(1,2) have d1: "d1 = dest" and c1: "c1 \<le> mask_limit bmhd"
        by (auto elim!: step_cases simp: writes_run_def)
      from "1.IH" [OF False Inr s [symmetric] refl "1.prems"(1) c1 rec] d1
      show ?thesis by simp
    qed
  qed
qed

lemma step_unmask:
  assumes "byterun_step bmhd (src, dest, counter) = Inr (s1, d1, c1)"
  shows "\<exists>d. byterun_step (bmhd\<lparr>Masking := 0\<rparr>) (src, dest0, counter) = Inr (s1, d, c1)"
  using assms
  by (auto simp: byterun_step_def Let_def split: list.splits if_splits)

lemma row_unmask:
  "decompress_row bmhd src dest counter = Inr (src', dest') \<Longrightarrow>
   \<exists>d. decompress_row (bmhd\<lparr>Masking := 0\<rparr>) src dest0 counter = Inr (src', d)"
proof (induction bmhd src dest counter arbitrary: dest0 rule: decompress_row.induct)
  case (1 bmhd src dest counter)
  show ?case
  proof (cases "counter = 0")
    case True
    with "1.prems" show ?thesis by (simp add: decompress_row.simps)
  next
    case False
    show ?thesis
    proof (cases "byterun_step bmhd (src, dest, counter)")
      case (Inl e)
      with False "1.prems" show ?thesis by (simp add: decompress_row.simps)
    next
      case (Inr s)
      obtain s1 d1 c1 where s: "s = (s1, d1, c1)" by (cases s) auto
      from Inr s False "1.prems"
      have rec: "decompress_row bmhd s1 d1 c1 = Inr (src', dest')"
        by (simp add: decompress_row.simps)
      from Inr s obtain d where
        st: "byterun_step (bmhd\<lparr>Masking := 0\<rparr>) (src, dest0, counter) = Inr (s1, d, c1)"
        using step_unmask by blast
      from "1.IH" [OF False Inr s [symmetric] refl rec, of d]
      obtain d2 where "decompress_row (bmhd\<lparr>Masking := 0\<rparr>) s1 d c1 = Inr (src', d2)" by blast
      with st False show ?thesis
        by (subst decompress_row.simps) simp
    qed
  qed
qed


lemma step_shift:
  assumes "Masking bmhd = 1" and "0 \<le> mask_limit bmhd" and "0 < a"
    and "byterun_step (bmhd\<lparr>Masking := 0\<rparr>) (src, dest, a) = Inr (s1, d1, a1)"
  shows "byterun_step bmhd (src, dest, a + mask_limit bmhd) = Inr (s1, d1, a1 + mask_limit bmhd)"
  using assms
  by (auto simp: byterun_step_def Let_def writes_run_def mask_limit_def split: list.splits if_splits)

lemma planes_then_mask:
  assumes "Masking bmhd = 1" and "0 \<le> mask_limit bmhd"
  shows "bmhd0 = bmhd\<lparr>Masking := 0\<rparr> \<Longrightarrow> decompress_row bmhd0 src dest a = Inr (s1, d1) \<Longrightarrow>
         decompress_row bmhd src dest (a + mask_limit bmhd) = decompress_row bmhd s1 d1 (mask_limit bmhd)"
proof (induction bmhd0 src dest a rule: decompress_row.induct)
  case (1 bmhd0 src dest a)
  show ?case
  proof (cases "a = 0")
    case True
    with "1.prems"(2) have "s1 = src" and "d1 = dest"
      by (simp_all add: decompress_row.simps [of bmhd0])
    with True show ?thesis by simp
  next
    case False
    from "1.prems"(2) have "0 \<le> a" using negative_never_returns [of a bmhd0 src dest "(s1, d1)"]
      by (cases "a < 0") auto
    with False have pos: "0 < a" by simp
    show ?thesis
    proof (cases "byterun_step bmhd0 (src, dest, a)")
      case (Inl e)
      with False "1.prems"(2) show ?thesis by (simp add: decompress_row.simps [of bmhd0])
    next
      case (Inr s)
      obtain s2 d2 a2 where s: "s = (s2, d2, a2)" by (cases s) auto
      from Inr s False "1.prems"(2)
      have rec: "decompress_row bmhd0 s2 d2 a2 = Inr (s1, d1)"
        by (simp add: decompress_row.simps [of bmhd0])
      from Inr s "1.prems"(1) assms pos
      have st: "byterun_step bmhd (src, dest, a + mask_limit bmhd) = Inr (s2, d2, a2 + mask_limit bmhd)"
        by (simp add: step_shift)
      from pos assms(2) have nz: "a + mask_limit bmhd \<noteq> 0" by simp
      have "decompress_row bmhd src dest (a + mask_limit bmhd) =
              decompress_row bmhd s2 d2 (a2 + mask_limit bmhd)"
        using st nz by (subst decompress_row.simps) simp
      also have "\<dots> = decompress_row bmhd s1 d1 (mask_limit bmhd)"
        using "1.IH" [OF False Inr s [symmetric] refl "1.prems"(1) rec] .
      finally show ?thesis .
    qed
  qed
qed

text \<open>
  C3, amended. With a mask plane, compression and a width below 32768, the counter of a
  row starts at \<open>BPlanes * (W >> 3) + (W >> 3)\<close>. If the runs of the bitplanes end where
  the mask plane starts (the source, decoded as a row of the bitplanes only, comes out
  even and leaves \<open>src1\<close>), and the mask plane is then decoded from \<open>src1\<close>, the row is
  decoded as a whole, the runs of the mask plane are taken from the source and write
  nothing, and the row adds exactly \<open>BPlanes * (W >> 3)\<close> bytes to the output, whatever
  the mask plane holds.
\<close>

theorem mask_plane_discard:
  assumes "Masking bmhd = 1" and "Compression bmhd = 1" and "uint (W bmhd) < 32768"
    and "decompress_row (bmhd\<lparr>Masking := 0\<rparr>) src dest (sint (BPlanes bmhd) * plane_bytes bmhd)
           = Inr (src1, dest1)"
    and "decompress_row bmhd src1 dest1 (plane_bytes bmhd) = Inr (src2, dest2)"
  shows "row_counter bmhd = sint (BPlanes bmhd) * plane_bytes bmhd + plane_bytes bmhd \<and>
         transfer_row bmhd src dest = Inr (src2, dest1) \<and> dest2 = dest1 \<and>
         int (length dest1) = int (length dest) + sint (BPlanes bmhd) * plane_bytes bmhd"
proof -
  from assms(3) have ml: "mask_limit bmhd = plane_bytes bmhd" by (rule mask_limit_plane_bytes)
  have pb: "0 \<le> plane_bytes bmhd" by (simp add: plane_bytes_def pos_imp_zdiv_nonneg_iff)
  from assms(1) have rc: "row_counter bmhd = sint (BPlanes bmhd) * plane_bytes bmhd + plane_bytes bmhd"
    by (simp add: row_counter_def)
  from assms(1,5) ml have d2: "dest2 = dest1" by (auto dest: masked_region_silent)
  from planes_then_mask [OF assms(1) _ refl assms(4)] ml pb assms(5) d2 rc
  have "decompress_row bmhd src dest (row_counter bmhd) = Inr (src2, dest1)" by simp
  with assms(2) have tr: "transfer_row bmhd src dest = Inr (src2, dest1)"
    by (simp add: transfer_row_def)
  from unmasked_exact [OF _ assms(4)]
  have "int (length dest1) = int (length dest) + sint (BPlanes bmhd) * plane_bytes bmhd" by simp
  with rc tr d2 show ?thesis by simp
qed


lemma mask_bmhd_simps:
  "Masking mask_bmhd = 1" "Compression mask_bmhd = 1" "uint (W mask_bmhd) = 16"
  "plane_bytes mask_bmhd = 2" "mask_limit mask_bmhd = 2" "sint (BPlanes mask_bmhd) = 1"
  "row_counter mask_bmhd = 4" "Masking (mask_bmhd\<lparr>Masking := 0\<rparr>) = 0"
  "mask_limit (mask_bmhd\<lparr>Masking := 0\<rparr>) = 2"
  by (simp_all add: mask_bmhd_def plane_bytes_def mask_limit_def row_counter_def)

lemma replicate_numeral: "replicate (numeral k) x = x # replicate (pred_numeral k) x"
  by (simp add: numeral_eq_Suc)

lemmas eval_row = decompress_row.simps byterun_step_def writes_run_def mask_bmhd_simps Let_def
  replicate_numeral

text \<open>
  C3 as stated fails: one replicate run of four bytes covers the bitplane and the mask
  plane of a row of \<open>mask_bmhd\<close>. It starts above the mask plane, so all four bytes are
  written, where the bitplane alone has two.
\<close>

theorem whole_row_run_counterexample:
  "row_counter mask_bmhd = 4 \<and> sint (BPlanes mask_bmhd) * plane_bytes mask_bmhd = 2 \<and>
   transfer_row mask_bmhd [0xFD, 9] [] = Inr ([], [9, 9, 9, 9])"
  by (simp add: transfer_row_def eval_row)

theorem mask_plane_discard_witness:
  "transfer_row mask_bmhd [1, 5, 6, 0xFF, 7, 8] [] = Inr ([8], [5, 6]) \<and>
   transfer_row mask_bmhd [1, 5, 6, 1, 3, 4, 8] [] = Inr ([8], [5, 6])"
  using mask_plane_discard [of mask_bmhd "[1, 5, 6, 0xFF, 7, 8]" "[]" "[0xFF, 7, 8]" "[5, 6]" "[8]" "[5, 6]"]
    mask_plane_discard [of mask_bmhd "[1, 5, 6, 1, 3, 4, 8]" "[]" "[1, 3, 4, 8]" "[5, 6]" "[8]" "[5, 6]"]
  by (simp add: eval_row)


text \<open>
  C1 as stated fails where the header has a mask plane: with the counter at 2, inside the
  mask plane of \<open>mask_bmhd\<close>, the control byte 0 takes its one literal byte from the
  input and lowers the counter by one, and copies nothing to the output.
\<close>

theorem literal_in_mask_counterexample:
  "byterun_step mask_bmhd ([0, 5], [], 2) = Inr ([], [], 1)"
  by (simp add: eval_row)

text \<open>
  C1, amended. One pass of the loop on the control byte \<open>c\<close>, read as a signed char:
  \<^item> \<open>-128\<close> moves the source to the next control byte and changes nothing else;
  \<^item> \<open>c \<ge> 0\<close>, with \<open>c + 1\<close> bytes left in the source, moves the source past these
    bytes and lowers the counter by \<open>c + 1\<close>;
  \<^item> \<open>c < 0\<close> moves the source past one value byte and lowers the counter by
    \<open>-c + 1\<close>.
  The \<open>c + 1\<close> bytes, or \<open>-c + 1\<close> copies of the value byte, are appended to the output
  unless the header has a mask plane and the counter is at most \<open>(short)W >> 3\<close>; then
  nothing is written. The counter stays within the int.
\<close>

theorem byterun_control_bytes:
  assumes "val = sint c"
  shows "(val = - 128 \<longrightarrow>
            byterun_step bmhd (c # rest, dest, counter) = Inr (rest, dest, counter)) \<and>
         (0 \<le> val \<and> val + 1 \<le> int (length rest) \<and> - (2 ^ 31) \<le> counter - (val + 1) \<longrightarrow>
            byterun_step bmhd (c # rest, dest, counter) =
              Inr (drop (nat (val + 1)) rest,
                   if Masking bmhd \<noteq> 1 \<or> mask_limit bmhd < counter
                   then dest @ take (nat (val + 1)) rest else dest,
                   counter - (val + 1))) \<and>
         (val < 0 \<and> val \<noteq> - 128 \<and> - (2 ^ 31) \<le> counter - (- val + 1) \<longrightarrow>
            byterun_step bmhd (c # v # rest, dest, counter) =
              Inr (rest,
                   if Masking bmhd \<noteq> 1 \<or> mask_limit bmhd < counter
                   then dest @ replicate (nat (- val + 1)) v else dest,
                   counter - (- val + 1)))"
  using assms by (auto simp: byterun_step_def Let_def writes_run_def)

theorem byterun_control_bytes_witness:
  "byterun_step cmap_bmhd ([0x80, 1, 2], [4], 320) = Inr ([1, 2], [4], 320) \<and>
   byterun_step cmap_bmhd ([2, 5, 6, 7, 8], [4], 320) = Inr ([8], [4, 5, 6, 7], 317) \<and>
   byterun_step cmap_bmhd ([0xFE, 5, 6], [4], 320) = Inr ([6], [4, 5, 5, 5], 317)"
  using byterun_control_bytes [of "- 128" "0x80" cmap_bmhd "[1, 2]" "[4]" 320]
    byterun_control_bytes [of 2 2 cmap_bmhd "[5, 6, 7, 8]" "[4]" 320]
    byterun_control_bytes [of "- 2" "0xFE" cmap_bmhd "[6]" "[4]" 320 5]
  by (simp add: cmap_bmhd_def replicate_numeral)

text \<open>
  C10 as stated fails for a width that does not fit a signed short. The test of lines 487
  and 503 compares the counter with \<open>(short)W >> 3\<close>; for a width of 32768 that is -4096
  and not 4096, so a literal run that starts with the counter at \<open>W >> 3 = 4096\<close>, inside
  the mask plane, is written.
\<close>

theorem short_cast_counterexample:
  "Masking wide_bmhd = 1 \<and> plane_bytes wide_bmhd = 4096 \<and> \<not> plane_bytes wide_bmhd < 4096 \<and>
   byterun_step wide_bmhd ([0, 5], [], 4096) = Inr ([], [5], 4095)"
  by (simp add: wide_bmhd_def plane_bytes_def byterun_step_def writes_run_def mask_limit_def Let_def)

text \<open>
  C10, amended. With a mask plane, a run, literal or replicate, is decided once, by the
  counter at its start: above \<open>(short)W >> 3\<close> the whole run is appended to the output, as
  many bytes as the counter goes down, also when the run reaches into the mask plane; at
  or below \<open>(short)W >> 3\<close> nothing of it is written. The source and the counter move by
  the run in both cases. For a width below 32768, \<open>(short)W >> 3\<close> is \<open>W >> 3\<close>. The run's
  bytes are in the source and the counter stays within the int.
\<close>

theorem run_written_whole_or_dropped:
  assumes "Masking bmhd = 1" and "val = sint c"
  shows "(0 \<le> val \<and> val + 1 \<le> int (length rest) \<and> - (2 ^ 31) \<le> counter - (val + 1) \<longrightarrow>
            byterun_step bmhd (c # rest, dest, counter) =
              Inr (drop (nat (val + 1)) rest,
                   if mask_limit bmhd < counter then dest @ take (nat (val + 1)) rest else dest,
                   counter - (val + 1)) \<and>
            int (length (take (nat (val + 1)) rest)) = val + 1) \<and>
         (val < 0 \<and> val \<noteq> - 128 \<and> - (2 ^ 31) \<le> counter - (- val + 1) \<longrightarrow>
            byterun_step bmhd (c # v # rest, dest, counter) =
              Inr (rest,
                   if mask_limit bmhd < counter then dest @ replicate (nat (- val + 1)) v else dest,
                   counter - (- val + 1)) \<and>
            int (length (replicate (nat (- val + 1)) v)) = - val + 1) \<and>
         (uint (W bmhd) < 32768 \<longrightarrow> mask_limit bmhd = uint (W bmhd) div 8)"
  using assms
  by (auto simp: byterun_step_def Let_def writes_run_def mask_limit_plane_bytes [unfolded plane_bytes_def])

theorem run_written_whole_or_dropped_witness:
  "byterun_step mask_bmhd ([2, 5, 6, 7, 8], [4], 3) = Inr ([8], [4, 5, 6, 7], 0) \<and>
   byterun_step mask_bmhd ([0xFE, 5, 8], [4], 3) = Inr ([8], [4, 5, 5, 5], 0) \<and>
   byterun_step mask_bmhd ([1, 5, 6, 8], [4], 2) = Inr ([8], [4], 0) \<and>
   byterun_step mask_bmhd ([0xFF, 5, 8], [4], 2) = Inr ([8], [4], 0) \<and>
   mask_limit mask_bmhd = 2"
  using run_written_whole_or_dropped [of mask_bmhd 2 2 "[5, 6, 7, 8]" 3 "[4]"]
    run_written_whole_or_dropped [of mask_bmhd "- 2" "0xFE" "[8]" 3 "[4]" 5]
    run_written_whole_or_dropped [of mask_bmhd 1 1 "[5, 6, 8]" 2 "[4]"]
    run_written_whole_or_dropped [of mask_bmhd "- 1" "0xFF" "[8]" 2 "[4]" 5]
  by (simp add: mask_bmhd_simps replicate_numeral)


text \<open>A row that the loop decodes started from a counter that was not negative, and
  the same source bytes, decoded with no mask, are used up to the same place and give
  exactly that many bytes.\<close>

lemma returned_row_exact:
  "(decompress_row bmhd src dest counter = Inr (src', dest') \<longrightarrow>
      0 \<le> counter \<and>
      (\<exists>d. decompress_row (bmhd\<lparr>Masking := 0\<rparr>) src [] counter = Inr (src', d) \<and>
           int (length d) = counter)) \<and>
   (counter < 0 \<longrightarrow> (\<exists>e. decompress_row bmhd src dest counter = Inl e))"
proof (intro conjI impI)
  assume r: "decompress_row bmhd src dest counter = Inr (src', dest')"
  then show "0 \<le> counter"
    using negative_never_returns [of counter bmhd src dest "(src', dest')"] by (cases "counter < 0") auto
  from row_unmask [OF r, of "[]"] obtain d where
    d: "decompress_row (bmhd\<lparr>Masking := 0\<rparr>) src [] counter = Inr (src', d)" by blast
  from unmasked_exact [OF _ d] have "int (length d) = counter" by simp
  with d show "\<exists>d. decompress_row (bmhd\<lparr>Masking := 0\<rparr>) src [] counter = Inr (src', d) \<and>
           int (length d) = counter" by blast
next
  assume "counter < 0"
  then show "\<exists>e. decompress_row bmhd src dest counter = Inl e"
    using negative_never_returns [of counter bmhd src dest]
    by (cases "decompress_row bmhd src dest counter") auto
qed



lemma total_length_Cons [simp]:
  "total_length (r # rs) = int (length (run_bytes r)) + total_length rs"
  by (simp add: total_length_def)

lemma total_length_Nil [simp]: "total_length [] = 0"
  by (simp add: total_length_def)


lemma encode_runs_Cons [simp]: "encode_runs (r # rs) = encode_run r @ encode_runs rs"
  by (simp add: encode_runs_def)

lemma encode_runs_Nil [simp]: "encode_runs [] = []"
  by (simp add: encode_runs_def)












subsection \<open>ILBM to MCGA\<close>

lemma top_bit_test: "(x AND 0x80 \<noteq> 0) = bit x 7" for x :: byte
proof -
  have "(0x80 :: byte) = push_bit 7 1" by simp
  then show ?thesis by (simp only: bit_iff_and_push_bit_not_eq_0)
qed

lemma bit_shl1: "bit (push_bit 1 x) m \<longleftrightarrow> 0 < m \<and> m < 8 \<and> bit x (m - 1)" for x :: byte
  by (simp only: bit_push_bit_iff) (auto simp: possible_bit_word dest: bit_imp_le_length)

lemma bit_double: "bit (x * 2) m \<longleftrightarrow> 0 < m \<and> m < 8 \<and> bit x (m - 1)" for x :: byte
  using bit_shl1 [of x m] by simp

lemma roll_bits_bytes:
  "n \<le> length bytes \<Longrightarrow>
   snd (roll_bits n bytes val) = map (push_bit 1) (take n bytes) @ drop n bytes"
proof (induction n arbitrary: bytes val)
  case 0
  then show ?case by simp
next
  case (Suc n)
  then have n: "n < length bytes" by simp
  have "snd (roll_bits (Suc n) bytes val) =
          map (push_bit 1) (take n (bytes[n := push_bit 1 (bytes ! n)])) @
          drop n (bytes[n := push_bit 1 (bytes ! n)])"
    using Suc.IH [of "bytes[n := push_bit 1 (bytes ! n)]"] n by (simp add: Let_def)
  also have "\<dots> = map (push_bit 1) (take (Suc n) bytes) @ drop (Suc n) bytes"
    using n by (simp add: take_Suc_conv_app_nth drop_update_swap Cons_nth_drop_Suc [symmetric] upd_conv_take_nth_drop)
  finally show ?case .
qed

lemma roll_bits_val:
  "n \<le> length bytes \<Longrightarrow> i < 8 \<Longrightarrow>
   bit (fst (roll_bits n bytes val)) i \<longleftrightarrow> (if i < n then bit (bytes ! i) 7 else bit val (i - n))"
proof (induction n arbitrary: bytes val)
  case 0
  then show ?case by simp
next
  case (Suc n)
  then have n: "n < length bytes" by simp
  let ?val2 = "if bytes ! n AND 0x80 \<noteq> 0 then push_bit 1 val OR 1 else push_bit 1 val"
  have v2: "bit ?val2 m \<longleftrightarrow> (if m = 0 then bit (bytes ! n) 7 else bit val (m - 1))" if "m < 8" for m
    using that by (auto simp add: top_bit_test bit_or_iff bit_1_iff bit_double)
  let ?bs = "bytes[n := push_bit 1 (bytes ! n)]"
  have step: "roll_bits (Suc n) bytes val = roll_bits n ?bs ?val2"
    by (simp only: roll_bits.simps Let_def)
  have len: "n \<le> length ?bs" using n by simp
  have "bit (fst (roll_bits (Suc n) bytes val)) i \<longleftrightarrow>
          (if i < n then bit (?bs ! i) 7 else bit ?val2 (i - n))"
    unfolding step by (rule Suc.IH [OF len Suc.prems(2)])
  also have "\<dots> \<longleftrightarrow> (if i < Suc n then bit (bytes ! i) 7 else bit val (i - Suc n))"
  proof (cases "i < n")
    case True
    then show ?thesis by simp
  next
    case False
    with Suc.prems(2) have "i - n < 8" by simp
    from v2 [OF this] False show ?thesis
      by (cases "i = n") (simp_all add: less_Suc_eq)
  qed
  finally show ?case .
qed


lemma roll_pixels_Suc:
  "roll_pixels (Suc m) planes bytes =
     (fst (roll_bits planes bytes 0) # fst (roll_pixels m planes (snd (roll_bits planes bytes 0))),
      snd (roll_pixels m planes (snd (roll_bits planes bytes 0))))"
  by (simp split: prod.splits)

lemma roll_pixels_length: "length (fst (roll_pixels m planes bytes)) = m"
proof (induction m arbitrary: bytes)
  case 0
  then show ?case by simp
next
  case (Suc m)
  from Suc [of "snd (roll_bits planes bytes 0)"] show ?case
    by (simp only: roll_pixels_Suc fst_conv list.size)
qed

lemma roll_pixels_bytes_length:
  "planes \<le> length bytes \<Longrightarrow> length (snd (roll_pixels m planes bytes)) = length bytes"
proof (induction m arbitrary: bytes)
  case 0
  then show ?case by simp
next
  case (Suc m)
  have "length (snd (roll_bits planes bytes 0)) = length bytes"
    using Suc.prems by (simp add: roll_bits_bytes)
  with Suc.IH [of "snd (roll_bits planes bytes 0)"] Suc.prems show ?case
    by (simp only: roll_pixels_Suc snd_conv)
qed

lemma roll_pixels_bit:
  "planes \<le> length bytes \<Longrightarrow> m \<le> 8 \<Longrightarrow> k < m \<Longrightarrow> i < 8 \<Longrightarrow>
   bit (fst (roll_pixels m planes bytes) ! k) i \<longleftrightarrow> i < planes \<and> bit (bytes ! i) (7 - k)"
proof (induction m arbitrary: bytes k)
  case 0
  then show ?case by simp
next
  case (Suc m)
  let ?bytes1 = "snd (roll_bits planes bytes 0)"
  have b1: "?bytes1 = map (push_bit 1) (take planes bytes) @ drop planes bytes"
    using Suc.prems(1) by (rule roll_bits_bytes)
  show ?case
  proof (cases k)
    case 0
    then show ?thesis
      using roll_bits_val [OF Suc.prems(1) Suc.prems(4), of 0]
      by (simp only: roll_pixels_Suc fst_conv nth_Cons_0) simp
  next
    case (Suc k')
    with Suc.prems have k': "k' < m" and m: "m \<le> 8" and k7: "k' < 7" by simp_all
    have len1: "planes \<le> length ?bytes1" using Suc.prems(1) b1 by simp
    have "bit (fst (roll_pixels (Suc m) planes bytes) ! k) i \<longleftrightarrow>
            bit (fst (roll_pixels m planes ?bytes1) ! k') i"
      using Suc by (simp only: roll_pixels_Suc fst_conv nth_Cons_Suc)
    also have "\<dots> \<longleftrightarrow> i < planes \<and> bit (?bytes1 ! i) (7 - k')"
      by (rule Suc.IH [OF len1 m k' Suc.prems(4)])
    also have "\<dots> \<longleftrightarrow> i < planes \<and> bit (bytes ! i) (7 - k)"
    proof (cases "i < planes")
      case True
      with Suc.prems(1) have "?bytes1 ! i = push_bit 1 (bytes ! i)"
        unfolding b1 by (simp add: nth_append)
      moreover from k7 have "0 < 7 - k'" "7 - k' < 8" by simp_all
      ultimately show ?thesis using Suc True by (simp only: bit_shl1) simp
    next
      case False
      then show ?thesis by simp
    qed
    finally show ?thesis .
  qed
qed


lemma get_planes_ok:
  assumes "bplane + k \<le> 8" and "length bytes = 8"
    and "\<forall>i. bplane \<le> i \<and> i < bplane + k \<longrightarrow>
           0 \<le> source + int i * 40 \<and> source + int i * 40 < int (length src)"
  shows "\<exists>bytes'. get_planes src source bplane k bytes = Inr bytes' \<and> length bytes' = 8 \<and>
           (\<forall>i. bplane \<le> i \<and> i < bplane + k \<longrightarrow> bytes' ! i = src ! nat (source + int i * 40)) \<and>
           (\<forall>i<bplane. bytes' ! i = bytes ! i)"
  using assms
proof (induction k arbitrary: bplane bytes)
  case 0
  then show ?case by auto
next
  case (Suc k)
  let ?b = "src ! nat (source + int bplane * 40)"
  from Suc.prems(3) have rd: "read_byte src (source + int bplane * 40) = Inr ?b"
    by (simp add: read_byte_def)
  from Suc.prems(1) have lt: "bplane < 8" by simp
  have "\<exists>bytes'. get_planes src source (Suc bplane) k (bytes[bplane := ?b]) = Inr bytes' \<and>
          length bytes' = 8 \<and>
          (\<forall>i. Suc bplane \<le> i \<and> i < Suc bplane + k \<longrightarrow> bytes' ! i = src ! nat (source + int i * 40)) \<and>
          (\<forall>i<Suc bplane. bytes' ! i = bytes[bplane := ?b] ! i)"
    using Suc.prems by (intro Suc.IH) simp_all
  then obtain bytes' where
    g: "get_planes src source (Suc bplane) k (bytes[bplane := ?b]) = Inr bytes'"
    and l: "length bytes' = 8"
    and hi: "\<forall>i. Suc bplane \<le> i \<and> i < Suc bplane + k \<longrightarrow> bytes' ! i = src ! nat (source + int i * 40)"
    and lo: "\<forall>i<Suc bplane. bytes' ! i = bytes[bplane := ?b] ! i"
    by blast
  from rd lt g have "get_planes src source bplane (Suc k) bytes = Inr bytes'" by simp
  moreover have "bytes' ! i = src ! nat (source + int i * 40)"
    if "bplane \<le> i \<and> i < bplane + Suc k" for i
  proof (cases "i = bplane")
    case True
    with lo lt Suc.prems(2) show ?thesis by simp
  next
    case False
    with that hi show ?thesis by simp
  qed
  moreover have "bytes' ! i = bytes ! i" if "i < bplane" for i
    using lo that by simp
  ultimately show ?case using l by blast
qed

lemma convert_line_ok:
  assumes "planes \<le> 8" and "length bytes = 8"
    and "\<forall>g<j. \<forall>i<planes. 0 \<le> source + int g + int i * 40 \<and>
                              source + int g + int i * 40 < int (length src)"
  shows "\<exists>bytes' pixels.
           convert_line src planes j source bytes destination =
             Inr (source + int j, bytes', destination @ pixels) \<and>
           length bytes' = 8 \<and> length pixels = 8 * j \<and>
           (\<forall>n<8 * j. \<forall>i<8. bit (pixels ! n) i \<longleftrightarrow>
              i < planes \<and> bit (src ! nat (source + int (n div 8) + int i * 40)) (7 - n mod 8))"
  using assms
proof (induction j arbitrary: source bytes destination)
  case 0
  then show ?case by simp
next
  case (Suc j)
  have "\<exists>bytes1. get_planes src source 0 planes bytes = Inr bytes1 \<and> length bytes1 = 8 \<and>
          (\<forall>i. 0 \<le> i \<and> i < 0 + planes \<longrightarrow> bytes1 ! i = src ! nat (source + int i * 40)) \<and>
          (\<forall>i<0. bytes1 ! i = bytes ! i)"
    using Suc.prems by (intro get_planes_ok) auto
  then obtain bytes1 where g: "get_planes src source 0 planes bytes = Inr bytes1"
    and l1: "length bytes1 = 8"
    and b1: "\<forall>i<planes. bytes1 ! i = src ! nat (source + int i * 40)" by auto
  define vals where "vals = fst (roll_pixels 8 planes bytes1)"
  define bytes2 where "bytes2 = snd (roll_pixels 8 planes bytes1)"
  have rp: "roll_pixels 8 planes bytes1 = (vals, bytes2)" by (simp add: vals_def bytes2_def)
  have lv: "length vals = 8" by (simp add: vals_def roll_pixels_length)
  have l2: "length bytes2 = 8" using Suc.prems(1) l1 by (simp add: bytes2_def roll_pixels_bytes_length)
  have rd: "\<forall>g<j. \<forall>i<planes. 0 \<le> source + 1 + int g + int i * 40 \<and>
                              source + 1 + int g + int i * 40 < int (length src)"
  proof (intro allI impI)
    fix g i assume "g < j" "i < planes"
    with Suc.prems(3) [rule_format, of "Suc g" i]
    show "0 \<le> source + 1 + int g + int i * 40 \<and> source + 1 + int g + int i * 40 < int (length src)"
      by (simp add: algebra_simps)
  qed
  from Suc.IH [OF Suc.prems(1) l2 rd, of "destination @ vals"]
  obtain bytes' pixels' where
    c: "convert_line src planes j (source + 1) bytes2 (destination @ vals) =
          Inr (source + 1 + int j, bytes', (destination @ vals) @ pixels')"
    and l': "length bytes' = 8" and lp: "length pixels' = 8 * j"
    and bits: "\<forall>n<8 * j. \<forall>i<8. bit (pixels' ! n) i \<longleftrightarrow>
              i < planes \<and> bit (src ! nat (source + 1 + int (n div 8) + int i * 40)) (7 - n mod 8)"
    by blast
  have run: "convert_line src planes (Suc j) source bytes destination =
          Inr (source + int (Suc j), bytes', destination @ (vals @ pixels'))"
    using g rp c by (simp add: algebra_simps)
  have "bit ((vals @ pixels') ! n) i \<longleftrightarrow>
          i < planes \<and> bit (src ! nat (source + int (n div 8) + int i * 40)) (7 - n mod 8)"
    if n: "n < 8 * Suc j" and i: "i < 8" for n i
  proof (cases "n < 8")
    case True
    have "bit (vals ! n) i \<longleftrightarrow> i < planes \<and> bit (bytes1 ! i) (7 - n)"
      unfolding vals_def using Suc.prems(1) l1 True i by (intro roll_pixels_bit) simp_all
    with True lv b1 show ?thesis by (auto simp add: nth_append)
  next
    case False
    then have n8: "(vals @ pixels') ! n = pixels' ! (n - 8)" using lv by (simp add: nth_append)
    from False n have m: "n - 8 < 8 * j" by simp
    from False have d: "int ((n - 8) div 8) + 1 = int (n div 8)" and r: "(n - 8) mod 8 = n mod 8"
      by (simp_all add: le_div_geq le_mod_geq)
    from d have idx: "source + 1 + int ((n - 8) div 8) + int i * 40 =
                      source + int (n div 8) + int i * 40" by simp
    from bits [rule_format, OF m i] show ?thesis by (simp only: idx r n8)
  qed
  with run l' lv lp show ?case by (intro exI [of _ bytes'] exI [of _ "vals @ pixels'"]) simp
qed


lemma convert_lines_ok:
  assumes "1 \<le> planes" and "planes \<le> 8" and "length bytes = 8" and "0 \<le> source"
    and "source + int rows * (40 * planes) \<le> int (length src)"
  shows "\<exists>pixels.
           convert_lines src planes rows source bytes destination = Inr (destination @ pixels) \<and>
           length pixels = 320 * rows \<and>
           (\<forall>n<320 * rows. \<forall>i<8. bit (pixels ! n) i \<longleftrightarrow>
              i < nat planes \<and>
              bit (src ! nat (source + int (n div 320) * (40 * planes) + int (n mod 320 div 8)
                              + int i * 40)) (7 - n mod 8))"
  using assms
proof (induction rows arbitrary: source bytes destination)
  case 0
  then show ?case by simp
next
  case (Suc rows)
  have np: "nat planes \<le> 8" using Suc.prems(2) by simp
  have rows0: "0 \<le> int rows * (40 * planes)" using Suc.prems(1) by simp
  have expand: "int (Suc rows) * (40 * planes) = 40 * planes + int rows * (40 * planes)"
    by (simp add: algebra_simps)
  have room: "source + 40 * planes \<le> int (length src)"
    using Suc.prems(5) rows0 unfolding expand by linarith
  have rd: "\<forall>g<40. \<forall>i<nat planes. 0 \<le> source + int g + int i * 40 \<and>
                              source + int g + int i * 40 < int (length src)"
  proof (intro allI impI)
    fix g i :: nat assume g: "g < 40" and i: "i < nat planes"
    from i have "int i + 1 \<le> planes" by simp
    then have "int i * 40 + 40 \<le> 40 * planes" by simp
    with g room Suc.prems(4)
    show "0 \<le> source + int g + int i * 40 \<and> source + int g + int i * 40 < int (length src)"
      by simp
  qed
  from convert_line_ok [OF np Suc.prems(3) rd, of destination]
  obtain bytes1 px where
    cl: "convert_line src (nat planes) 40 source bytes destination =
           Inr (source + int 40, bytes1, destination @ px)"
    and l1: "length bytes1 = 8" and lpx: "length px = 8 * 40"
    and bpx: "\<forall>n<8 * 40. \<forall>i<8. bit (px ! n) i \<longleftrightarrow>
              i < nat planes \<and> bit (src ! nat (source + int (n div 8) + int i * 40)) (7 - n mod 8)"
    by blast
  let ?source' = "source + 40 * planes"
  have s': "source + int 40 + 40 * (planes - 1) = ?source'" by simp
  have pos': "0 \<le> ?source'" using Suc.prems(1,4) by simp
  have room': "?source' + int rows * (40 * planes) \<le> int (length src)"
    using Suc.prems(5) unfolding expand by simp
  from Suc.IH [OF Suc.prems(1,2) l1 pos' room', of "destination @ px"]
  obtain pixels' where
    cr: "convert_lines src planes rows ?source' bytes1 (destination @ px) =
           Inr ((destination @ px) @ pixels')"
    and lp': "length pixels' = 320 * rows"
    and bp': "\<forall>n<320 * rows. \<forall>i<8. bit (pixels' ! n) i \<longleftrightarrow>
              i < nat planes \<and>
              bit (src ! nat (?source' + int (n div 320) * (40 * planes) + int (n mod 320 div 8)
                              + int i * 40)) (7 - n mod 8)"
    by blast
  have run: "convert_lines src planes (Suc rows) source bytes destination =
               Inr (destination @ (px @ pixels'))"
    using cl cr by (simp add: s')
  have "bit ((px @ pixels') ! n) i \<longleftrightarrow>
          i < nat planes \<and>
          bit (src ! nat (source + int (n div 320) * (40 * planes) + int (n mod 320 div 8)
                          + int i * 40)) (7 - n mod 8)"
    if n: "n < 320 * Suc rows" and i: "i < 8" for n i
  proof (cases "n < 320")
    case True
    then have "(px @ pixels') ! n = px ! n" using lpx by (simp add: nth_append)
    moreover from True have "n div 320 = 0" "n mod 320 = n" by simp_all
    moreover from True have "n < 8 * 40" by simp
    ultimately show ?thesis using bpx i by simp
  next
    case False
    then have n320: "(px @ pixels') ! n = pixels' ! (n - 320)" using lpx by (simp add: nth_append)
    from False n have m: "n - 320 < 320 * rows" by simp
    from False have d: "int ((n - 320) div 320) + 1 = int (n div 320)"
      and r: "(n - 320) mod 320 = n mod 320"
      by (simp_all add: le_div_geq le_mod_geq)
    from False have "n = (n - 320) + 8 * 40" by simp
    then have "n mod 8 = ((n - 320) + 8 * 40) mod 8" by simp
    also have "\<dots> = (n - 320) mod 8" by (simp only: mod_mult_self2)
    finally have r8: "(n - 320) mod 8 = n mod 8" by simp
    have "?source' + int ((n - 320) div 320) * (40 * planes) =
            source + (int ((n - 320) div 320) + 1) * (40 * planes)"
      by (simp add: algebra_simps)
    then have idx: "?source' + int ((n - 320) div 320) * (40 * planes) =
                      source + int (n div 320) * (40 * planes)"
      by (simp only: d)
    from bp' [rule_format, OF m i] show ?thesis by (simp only: idx r r8 n320)
  qed
  with run lpx lp' show ?case by (intro exI [of _ "px @ pixels'"]) simp
qed


text \<open>The picture that \<open>ILBM_To_MCGA\<close> writes, pixel by pixel: 200 lines of 40 groups of
  8 pixels; line \<open>row\<close> starts \<open>row * 40 * planes\<close> bytes into the source, and the byte of
  plane \<open>i\<close> for group \<open>j\<close> lies \<open>i * 40\<close> bytes after the byte of plane 0.\<close>

lemma ilbm_pixels:
  assumes "1 \<le> planes" and "planes \<le> 8" and "8000 * planes \<le> int (length src)"
  shows "\<exists>out. ILBM_To_MCGA src planes = Inr out \<and> length out = 64000 \<and>
           (\<forall>row<200. \<forall>j<40. \<forall>k<8. \<forall>i.
              bit (out ! (row * 320 + j * 8 + k)) i \<longleftrightarrow>
                i < nat planes \<and> bit (src ! (row * (40 * nat planes) + j + i * 40)) (7 - k))"
proof -
  have room: "0 + int 200 * (40 * planes) \<le> int (length src)" using assms(3) by simp
  from convert_lines_ok [OF assms(1,2) _ _ room, of "replicate 8 0" "[]"]
  obtain out where run: "ILBM_To_MCGA src planes = Inr out" and len: "length out = 320 * 200"
    and bits: "\<forall>n<320 * 200. \<forall>i<8. bit (out ! n) i \<longleftrightarrow>
              i < nat planes \<and>
              bit (src ! nat (0 + int (n div 320) * (40 * planes) + int (n mod 320 div 8)
                              + int i * 40)) (7 - n mod 8)"
    by (auto simp add: ILBM_To_MCGA_def)
  have "bit (out ! (row * 320 + j * 8 + k)) i \<longleftrightarrow>
          i < nat planes \<and> bit (src ! (row * (40 * nat planes) + j + i * 40)) (7 - k)"
    if row: "row < 200" and j: "j < 40" and k: "k < 8" for row j k i
  proof (cases "i < 8")
    case True
    let ?n = "row * 320 + j * 8 + k"
    from row j k have n: "?n < 320 * 200" by simp
    from j k have jk: "j * 8 + k < 320" by simp
    have d: "?n div 320 = row"
      by (rule div_nat_eqI) (use jk in simp_all)
    have m: "?n mod 320 = j * 8 + k"
      by (simp add: modulo_nat_def d)
    from k have d8: "(j * 8 + k) div 8 = j" by simp
    have "?n = k + (row * 40 + j) * 8" by simp
    then have "?n mod 8 = k mod 8" by (simp only: mod_mult_self1)
    with k have m8: "?n mod 8 = k" by simp
    from assms(1) have "int (nat planes) = planes" by simp
    then have "int (row * (40 * nat planes) + j + i * 40) =
            0 + int row * (40 * planes) + int j + int i * 40" by simp
    then have idx: "nat (0 + int row * (40 * planes) + int j + int i * 40) =
            row * (40 * nat planes) + j + i * 40" by linarith
    from bits [rule_format, OF n True] show ?thesis
      by (simp only: d m d8 m8 idx)
  next
    case False
    with assms(2) have "\<not> i < nat planes" by simp
    moreover from False have "\<not> bit (out ! (row * 320 + j * 8 + k)) i"
      by (auto dest: bit_imp_le_length)
    ultimately show ?thesis by simp
  qed
  with run len show ?thesis by simp
qed

text \<open>
  C2 as stated fails for a header that is not 320 by 200. For a picture 16 pixels wide
  and one line high, of two bitplanes, the claim puts the byte of plane 1 for the first
  group \<open>1 * (16 / 8) = 2\<close> bytes into the source and has 16 pixels written.
  \<open>ILBM_To_MCGA\<close> is not given the header: it writes 64000 pixels, and bit 1 of the
  first pixel is clear although the top bit of source byte 2 is set, since plane 1 is
  read 40 bytes into the source.
\<close>

theorem fixed_geometry_counterexample:
  "\<not> isl (ILBM_To_MCGA stripe_src 2) \<and>
   length (projr (ILBM_To_MCGA stripe_src 2)) = 64000 \<and>
   \<not> bit (projr (ILBM_To_MCGA stripe_src 2) ! 0) 1 \<and>
   bit (stripe_src ! (1 * (16 div 8))) 7"
proof -
  have "8000 * 2 \<le> int (length stripe_src)" by (simp add: stripe_src_def)
  from ilbm_pixels [OF _ _ this]
  obtain out where run: "ILBM_To_MCGA stripe_src 2 = Inr out" and len: "length out = 64000"
    and bits: "\<forall>row<200. \<forall>j<40. \<forall>k<8. \<forall>i.
              bit (out ! (row * 320 + j * 8 + k)) i \<longleftrightarrow>
                i < nat 2 \<and> bit (stripe_src ! (row * (40 * nat 2) + j + i * 40)) (7 - k)"
    by auto
  from bits [rule_format, of 0 0 0 1]
  have "\<not> bit (out ! 0) 1" by (simp add: stripe_src_def nth_append)
  moreover have "bit (stripe_src ! (1 * (16 div 8))) 7" by (simp add: stripe_src_def)
  ultimately show ?thesis using run len by simp
qed

text \<open>
  C2, amended. For 1 to 8 bitplanes and a source of at least \<open>8000 * planes\<close> bytes,
  \<open>ILBM_To_MCGA\<close> writes 64000 pixels for a picture of 200 lines of 320 pixels, whatever
  the header says. For every line \<open>row\<close>, group \<open>j\<close> of 8 pixels and pixel \<open>k\<close> of the group,
  bit \<open>i\<close> of the pixel is set exactly when \<open>i\<close> is below the number of planes and bit
  \<open>7 - k\<close> (the top bit after \<open>k\<close> shifts) of the byte of plane \<open>i\<close> is set; that byte
  lies \<open>i * 40\<close> bytes ahead of the group's base \<open>row * 40 * planes + j\<close>. So the highest
  plane gives the highest bit, each line takes \<open>40 * planes\<close> source bytes and gives 320
  pixels.
\<close>

theorem ilbm_to_chunky:
  assumes "1 \<le> planes" and "planes \<le> 8" and "8000 * planes \<le> int (length src)"
  shows "\<exists>out. ILBM_To_MCGA src planes = Inr out \<and> length out = 64000 \<and>
           (\<forall>row<200. \<forall>j<40. \<forall>k<8. \<forall>i.
              bit (out ! (row * 320 + j * 8 + k)) i \<longleftrightarrow>
                i < nat planes \<and> bit (src ! (row * (40 * nat planes) + j + i * 40)) (7 - k))"
  using assms by (rule ilbm_pixels)

theorem ilbm_to_chunky_witness:
  "\<not> isl (ILBM_To_MCGA unit_src 1) \<and>
   length (projr (ILBM_To_MCGA unit_src 1)) = 64000 \<and>
   \<not> bit (projr (ILBM_To_MCGA unit_src 1) ! 0) 0 \<and>
   bit (projr (ILBM_To_MCGA unit_src 1) ! 7) 0 \<and>
   \<not> bit (projr (ILBM_To_MCGA unit_src 1) ! 7) 1"
proof -
  have "8000 * 1 \<le> int (length unit_src)" by (simp add: unit_src_def)
  from ilbm_to_chunky [OF _ _ this]
  obtain out where run: "ILBM_To_MCGA unit_src 1 = Inr out" and len: "length out = 64000"
    and bits: "\<forall>row<200. \<forall>j<40. \<forall>k<8. \<forall>i.
              bit (out ! (row * 320 + j * 8 + k)) i \<longleftrightarrow>
                i < nat 1 \<and> bit (unit_src ! (row * (40 * nat 1) + j + i * 40)) (7 - k)"
    by auto
  from bits [rule_format, of 0 0 0 0] have "\<not> bit (out ! 0) 0" by (simp add: unit_src_def)
  moreover from bits [rule_format, of 0 0 7 0] have "bit (out ! 7) 0" by (simp add: unit_src_def)
  moreover from bits [rule_format, of 0 0 7 1] have "\<not> bit (out ! 7) 1" by simp
  ultimately show ?thesis using run len by simp
qed

end
